theory Spec2Isabelle
  imports Main "HOL-Library.Sublist"
begin

section \<open>Strings, errors and the parser's objects\<close>

text \<open>
  A Python \<open>str\<close> is a sequence of Unicode code points and every span of the parser is
  an offset in code points, so a string is a list of code points here.  \<open>str_of\<close> reads
  an ASCII literal of the source as such a string.
\<close>

type_synonym str = "nat list"

definition str_of :: "string \<Rightarrow> str" where
  "str_of s = map of_char s"

datatype error = AssertionError | KeyError | UnicodeEncodeError

type_synonym span = "int \<times> int"

text \<open>
  The objects of the third-party parser, with the attributes \<open>parse_wiki_str\<close> reads:
  \<open>em_match\<close> is \<open>em._match\<close> (\<open>None\<close>, or the span of group 1),
  \<open>tag_contents\<close> is \<open>tag._match.span("contents")\<close> (\<open>(-1, -1)\<close> when the group took
  no part in the match), \<open>wl_match\<close> is \<open>wikilink._match\<close> (\<open>None\<close>, or the span of
  group 4, again \<open>(-1, -1)\<close> when there is no text part).
\<close>

record BoldItalic =
  em_span :: span
  em_match :: "span option"
  em_is_bold :: bool

record Tag =
  tag_span :: span
  tag_contents :: span
  tag_attrs :: "str \<rightharpoonup> str"
  tag_name :: str

datatype WikiLink =
  WikiLink (wl_span: span) (wl_wikilinks: "WikiLink list") (wl_match: "span option")
    (wl_target: str)

datatype Template =
  Template (tp_span: span) (tp_templates: "Template list") (tp_name: str)

record WikiText =
  get_bolds_and_italics :: "BoldItalic list"
  get_tags :: "Tag list"
  wikilinks :: "WikiLink list"
  templates :: "Template list"

section \<open>String parsers\<close>

subsection \<open>\<open>urllib.parse.quote\<close> with its default arguments\<close>

definition ALWAYS_SAFE :: str where
  "ALWAYS_SAFE =
     str_of ''ABCDEFGHIJKLMNOPQRSTUVWXYZabcdefghijklmnopqrstuvwxyz0123456789_.-~''"

definition hex_digit :: "nat \<Rightarrow> nat" where
  "hex_digit d = (if d < 10 then 48 + d else 55 + d)"

definition quoter :: "nat \<Rightarrow> str" where
  "quoter b =
     (if b \<in> set ALWAYS_SAFE \<or> b = 47 then [b]
      else [37, hex_digit (b div 16), hex_digit (b mod 16)])"

text \<open>
  The UTF-8 encoding of one code point, strict: a surrogate cannot be encoded.  A Python
  string holds no code point above \<open>0x10FFFF\<close>.
\<close>

definition encode_utf8 :: "nat \<Rightarrow> error + nat list" where
  "encode_utf8 c =
     (if c < 128 then Inr [c]
      else if c < 2048 then Inr [192 + c div 64, 128 + c mod 64]
      else if c < 65536 then
        (if 55296 \<le> c \<and> c < 57344 then Inl UnicodeEncodeError
         else Inr [224 + c div 4096, 128 + (c div 64) mod 64, 128 + c mod 64])
      else if c < 1114112 then
        Inr [240 + c div 262144, 128 + (c div 4096) mod 64, 128 + (c div 64) mod 64,
             128 + c mod 64]
      else Inl UnicodeEncodeError)"

fun quote :: "str \<Rightarrow> error + str" where
  "quote [] = Inr []"
| "quote (c # cs) =
     (case encode_utf8 c of
        Inl e \<Rightarrow> Inl e
      | Inr bs \<Rightarrow>
          (case quote cs of
             Inl e \<Rightarrow> Inl e
           | Inr r \<Rightarrow> Inr (concat (map quoter bs) @ r)))"

subsection \<open>The link formatters\<close>

definition urlify :: "str \<Rightarrow> error + str" where
  "urlify s = quote (map (\<lambda>c. if c = 32 then 95 else c) s)"

definition wiki_link :: "str \<Rightarrow> str \<Rightarrow> error + str" where
  "wiki_link WIKI_BASE name =
     (case urlify name of Inl e \<Rightarrow> Inl e | Inr u \<Rightarrow> Inr (WIKI_BASE @ u))"

text \<open>An f-string formats \<open>None\<close> as the text \<open>None\<close>.\<close>

definition format_opt :: "str option \<Rightarrow> str" where
  "format_opt link = (case link of None \<Rightarrow> str_of ''None'' | Some l \<Rightarrow> l)"

definition discord_link :: "str \<Rightarrow> str \<Rightarrow> str option \<Rightarrow> bool \<Rightarrow> error + str" where
  "discord_link WIKI_BASE display link from_display =
     (case (if link = None \<and> from_display
            then (case wiki_link WIKI_BASE display of
                    Inl e \<Rightarrow> Inl e | Inr l \<Rightarrow> Inr (Some l))
            else Inr link) of
        Inl e \<Rightarrow> Inl e
      | Inr link' \<Rightarrow>
          Inr (str_of ''['' @ display @ str_of ''](''  @ format_opt link' @ str_of '')''))"

definition TAG_MAPPING :: "str \<rightharpoonup> str" where
  "TAG_MAPPING =
     [str_of ''inc'' \<mapsto> str_of ''**'',
      str_of ''increase'' \<mapsto> str_of ''**'',
      str_of ''color-blue'' \<mapsto> str_of ''**'',
      str_of ''color-orange'' \<mapsto> str_of ''**'',
      str_of ''br'' \<mapsto> [10]]"

definition BLACK_STAR :: str where
  "BLACK_STAR = [9733]"

definition TEMPLATE_MAPPING :: "str \<rightharpoonup> str" where
  "TEMPLATE_MAPPING = [str_of ''star'' \<mapsto> BLACK_STAR]"

section \<open>\<open>parse_wiki_str\<close>\<close>

subsection \<open>The slice assignment of \<open>replace\<close>\<close>

text \<open>
  Python adjusts the bounds of a slice to the list: a negative bound counts from the end,
  and the result is clamped to \<open>0 .. len\<close>.
\<close>

definition slice_index :: "nat \<Rightarrow> int \<Rightarrow> nat" where
  "slice_index n i =
     (if i < 0 then (if i + int n < 0 then 0 else nat (i + int n))
      else if int n < i then n else nat i)"

text \<open>
  \<open>lst[begin:end] = [repl] + [None] * (end - begin - 1)\<close>: the cells from the adjusted
  \<open>begin\<close> up to the adjusted \<open>end\<close> (none when \<open>end\<close> lies before \<open>begin\<close>) are replaced
  by the new cells; a list times a negative number is empty.
\<close>

definition replace :: "'a option list \<Rightarrow> int \<Rightarrow> int \<Rightarrow> 'a option \<Rightarrow> 'a option list" where
  "replace lst begin end repl =
     (let b = slice_index (length lst) begin;
          e = max b (slice_index (length lst) end)
      in take b lst @ ([repl] @ replicate (nat (end - begin - 1)) None) @ drop e lst)"

subsection \<open>The four loops\<close>

type_synonym cell = "str option"

text \<open>A \<open>for\<close> loop over the parser's objects; an exception in the body ends it.\<close>

fun for_each :: "('x \<Rightarrow> 's \<Rightarrow> error + 's) \<Rightarrow> 'x list \<Rightarrow> 's \<Rightarrow> error + 's" where
  "for_each body [] s = Inr s"
| "for_each body (x # xs) s =
     (case body x s of Inl e \<Rightarrow> Inl e | Inr s' \<Rightarrow> for_each body xs s')"

definition em_body :: "BoldItalic \<Rightarrow> cell list \<Rightarrow> error + cell list" where
  "em_body em list_str =
     (case em_span em of (span_l, span_h) \<Rightarrow>
        (case em_match em of
           None \<Rightarrow> Inl AssertionError
         | Some (match_l, match_h) \<Rightarrow>
             (let repl = (if em_is_bold em then Some (str_of ''**'') else Some (str_of ''_''));
                  list_str1 = replace list_str span_l (span_l + match_l) repl
              in Inr (replace list_str1 (span_l + match_h) span_h repl))))"

definition tag_body :: "Tag \<Rightarrow> cell list \<Rightarrow> error + cell list" where
  "tag_body tag list_str =
     (case tag_span tag of (span_l, span_h) \<Rightarrow>
        (case tag_contents tag of (match_l, match_h) \<Rightarrow>
           (if match_l \<noteq> - 1 then
              (case tag_attrs tag (str_of ''class'') of
                 None \<Rightarrow> Inl KeyError
               | Some cls \<Rightarrow>
                   (let repl = TAG_MAPPING cls;
                        list_str1 = replace list_str span_l (span_l + match_l) repl
                    in Inr (replace list_str1 (span_l + match_h) span_h repl)))
            else Inr (replace list_str span_l span_h (TAG_MAPPING (tag_name tag))))))"

definition wikilink_body :: "str \<Rightarrow> WikiLink \<Rightarrow> cell list \<Rightarrow> error + cell list" where
  "wikilink_body WIKI_BASE wikilink list_str =
     (case wl_span wikilink of (span_l, span_h) \<Rightarrow>
        (if wl_wikilinks wikilink \<noteq> [] then
           Inr (replace list_str span_l span_h (Some (str_of ''<placeholder1>'')))
         else
           (case wl_match wikilink of
              None \<Rightarrow> Inl AssertionError
            | Some (match_l, match_h) \<Rightarrow>
                (if match_l \<noteq> - 1 then
                   (let list_str1 =
                          replace list_str span_l (span_l + match_l)
                            (Some (str_of ''<placeholder2>''))
                    in Inr (replace list_str1 (span_l + match_h) span_h None))
                 else
                   (case discord_link WIKI_BASE (wl_target wikilink) None True of
                      Inl e \<Rightarrow> Inl e
                    | Inr link \<Rightarrow> Inr (replace list_str span_l span_h (Some link)))))))"

definition template_body :: "Template \<Rightarrow> cell list \<Rightarrow> error + cell list" where
  "template_body template list_str =
     (case tp_span template of (span_l, span_h) \<Rightarrow>
        (if tp_templates template = [] then
           Inr (replace list_str span_l span_h (TEMPLATE_MAPPING (tp_name template)))
         else Inr list_str))"

definition join :: "cell list \<Rightarrow> str" where
  "join list_str = concat (map (\<lambda>c. case c of None \<Rightarrow> [] | Some s \<Rightarrow> s) list_str)"

text \<open>\<open>list(string)\<close>: one cell for each character, holding that character.\<close>

definition list_of :: "str \<Rightarrow> cell list" where
  "list_of string = map (\<lambda>c. Some [c]) string"

text \<open>
  The parser is the library's: \<open>wt\<close> stands for what \<open>wikitextparser.parse(string)\<close>
  returns, and \<open>WIKI_BASE\<close> for \<open>api.WIKI_BASE\<close>.  \<open>passes\<close> is the four loops of
  \<open>parse_wiki_str\<close>, in the order of the source, on the list of cells.
\<close>

definition passes :: "str \<Rightarrow> WikiText \<Rightarrow> cell list \<Rightarrow> error + cell list" where
  "passes WIKI_BASE wt list_str =
     (case for_each em_body (get_bolds_and_italics wt) list_str of
        Inl e \<Rightarrow> Inl e
      | Inr list_str1 \<Rightarrow>
          (case for_each tag_body (get_tags wt) list_str1 of
             Inl e \<Rightarrow> Inl e
           | Inr list_str2 \<Rightarrow>
               (case for_each (wikilink_body WIKI_BASE) (wikilinks wt) list_str2 of
                  Inl e \<Rightarrow> Inl e
                | Inr list_str3 \<Rightarrow> for_each template_body (templates wt) list_str3)))"

definition parse_wiki_str :: "str \<Rightarrow> WikiText \<Rightarrow> str \<Rightarrow> error + str" where
  "parse_wiki_str WIKI_BASE wt string =
     (case passes WIKI_BASE wt (list_of string) of
        Inl e \<Rightarrow> Inl e
      | Inr list_str \<Rightarrow> Inr (join list_str))"

section \<open>Sample inputs\<close>

text \<open>
  Strings with the objects the parser reports for them.  The apostrophe is the code
  point 39 and the line feed is 10.
\<close>

definition example_base :: str where
  "example_base = str_of ''https://example.org/wiki/''"

definition no_constructs :: WikiText where
  "no_constructs =
     \<lparr>get_bolds_and_italics = [], get_tags = [], wikilinks = [], templates = []\<rparr>"

text \<open>The bold run \<open>bold text\<close> between two runs of three apostrophes.\<close>

definition bold_text_str :: str where
  "bold_text_str = [39, 39, 39] @ str_of ''bold text'' @ [39, 39, 39]"

definition bold_text_em :: BoldItalic where
  "bold_text_em = \<lparr>em_span = (0, 15), em_match = Some (3, 12), em_is_bold = True\<rparr>"

definition bold_text_wt :: WikiText where
  "bold_text_wt = no_constructs\<lparr>get_bolds_and_italics := [bold_text_em]\<rparr>"

text \<open>
  A \<open>b\<close> tag of class \<open>inc\<close> around the italic run \<open>text\<close>; the attribute value and
  the italic are delimited by apostrophes.
\<close>

definition mixed_str :: str where
  "mixed_str =
     str_of ''<b class='' @ [39] @ str_of ''inc'' @ [39] @ str_of ''>'' @
     [39, 39] @ str_of ''text'' @ [39, 39] @ str_of ''</b>''"

definition mixed_em :: BoldItalic where
  "mixed_em = \<lparr>em_span = (15, 23), em_match = Some (2, 6), em_is_bold = False\<rparr>"

definition mixed_tag :: Tag where
  "mixed_tag =
     \<lparr>tag_span = (0, 27), tag_contents = (15, 23),
      tag_attrs = [str_of ''class'' \<mapsto> str_of ''inc''], tag_name = str_of ''b''\<rparr>"

definition mixed_wt :: WikiText where
  "mixed_wt = no_constructs\<lparr>get_bolds_and_italics := [mixed_em], get_tags := [mixed_tag]\<rparr>"





text \<open>A self-closing \<open>br\<close> tag that carries the class \<open>inc\<close>.\<close>

definition br_inc_str :: str where
  "br_inc_str = str_of ''<br class='' @ [39] @ str_of ''inc'' @ [39] @ str_of ''/>''"

definition br_inc_tag :: Tag where
  "br_inc_tag =
     \<lparr>tag_span = (0, 17), tag_contents = (- 1, - 1),
      tag_attrs = [str_of ''class'' \<mapsto> str_of ''inc''], tag_name = str_of ''br''\<rparr>"

text \<open>A \<open>b\<close> tag with contents and no attribute.\<close>

definition plain_b_str :: str where
  "plain_b_str = str_of ''<b>bold</b>''"

definition plain_b_tag :: Tag where
  "plain_b_tag =
     \<lparr>tag_span = (0, 11), tag_contents = (3, 7), tag_attrs = Map.empty,
      tag_name = str_of ''b''\<rparr>"

definition plain_b_wt :: WikiText where
  "plain_b_wt = no_constructs\<lparr>get_tags := [plain_b_tag]\<rparr>"

text \<open>
  Two apostrophes and \<open>a\<close>, a line feed, and the link \<open>[[K]]\<close>: the italic has no closing
  apostrophes and ends with its line, so its content reaches the end of its span.
\<close>

definition open_italic_str :: str where
  "open_italic_str = [39, 39] @ str_of ''a'' @ [10] @ str_of ''[[K]]''"

definition open_italic_em :: BoldItalic where
  "open_italic_em = \<lparr>em_span = (0, 3), em_match = Some (2, 3), em_is_bold = False\<rparr>"

definition open_italic_link :: WikiLink where
  "open_italic_link = WikiLink (4, 9) [] (Some (- 1, - 1)) (str_of ''K'')"

definition open_italic_wt :: WikiText where
  "open_italic_wt =
     no_constructs\<lparr>get_bolds_and_italics := [open_italic_em],
       wikilinks := [open_italic_link]\<rparr>"

















section \<open>Notions used in the statements\<close>

text \<open>
  The identifier of a tag as the specification resolves it: the class attribute when the
  tag has one, the name of the tag otherwise.
\<close>

definition class_or_name :: "Tag \<Rightarrow> str" where
  "class_or_name tag =
     (case tag_attrs tag (str_of ''class'') of Some cls \<Rightarrow> cls | None \<Rightarrow> tag_name tag)"

text \<open>
  Every string that \<open>parse_wiki_str\<close> passes to \<open>replace\<close> as \<open>repl\<close>: the two emphasis
  tokens, the two placeholders, the values of the two tables and the links of the
  parser's wikilinks.
\<close>

definition replacement_tokens :: "str \<Rightarrow> WikiText \<Rightarrow> str set" where
  "replacement_tokens WIKI_BASE wt =
     {str_of ''**'', str_of ''_'', str_of ''<placeholder1>'', str_of ''<placeholder2>''}
     \<union> ran TAG_MAPPING \<union> ran TEMPLATE_MAPPING
     \<union> {link. \<exists>w \<in> set (wikilinks wt).
                 discord_link WIKI_BASE (wl_target w) None True = Inr link}"

text \<open>
  Bookkeeping for the order of the output: a label beside each cell says which offset of
  the input the cell still shows (\<open>Some i\<close>), or that the cell was written by \<open>replace\<close>
  (\<open>None\<close>).  A list of cells is \<open>tracked\<close> when such labels exist with ascending offsets.
\<close>

definition cell_ok :: "str \<Rightarrow> str set \<Rightarrow> cell \<Rightarrow> nat option \<Rightarrow> bool" where
  "cell_ok string toks c lab =
     (case lab of
        Some i \<Rightarrow> i < length string \<and> c = Some [string ! i]
      | None \<Rightarrow> c = None \<or> (\<exists>t \<in> toks. c = Some t))"

definition origins :: "nat option list \<Rightarrow> nat list" where
  "origins labs = concat (map (\<lambda>lab. case lab of None \<Rightarrow> [] | Some i \<Rightarrow> [i]) labs)"

definition tracked :: "str \<Rightarrow> str set \<Rightarrow> cell list \<Rightarrow> bool" where
  "tracked string toks list_str =
     (\<exists>labs. list_all2 (cell_ok string toks) list_str labs \<and> sorted_wrt (<) (origins labs))"

section \<open>What one call of \<open>replace\<close> writes\<close>

lemma slice_index_in_range: "0 \<le> i \<Longrightarrow> i \<le> int n \<Longrightarrow> slice_index n i = nat i"
  by (simp add: slice_index_def)

lemma replace_span:
  assumes "0 \<le> b" "b \<le> e" "e \<le> int (length lst)"
  shows "replace lst b e r =
           take (nat b) lst @ r # replicate (nat (e - b - 1)) None @ drop (nat e) lst"
proof -
  have "slice_index (length lst) b = nat b" "slice_index (length lst) e = nat e"
    using assms by (simp_all add: slice_index_in_range)
  moreover have "max (nat b) (nat e) = nat e"
    using assms by simp
  ultimately show ?thesis
    by (simp add: replace_def)
qed

lemma length_replace:
  assumes "0 \<le> b" "b < e" "e \<le> int (length lst)"
  shows "length (replace lst b e r) = length lst"
proof -
  have "replace lst b e r =
          take (nat b) lst @ r # replicate (nat (e - b - 1)) None @ drop (nat e) lst"
    using assms by (simp add: replace_span)
  moreover have "nat b + (1 + nat (e - b - 1)) + (length lst - nat e) = length lst"
    using assms by linarith
  ultimately show ?thesis
    using assms by simp
qed

lemma replace_empty_span:
  assumes "0 \<le> b" "b \<le> int (length lst)"
  shows "replace lst b b r = take (nat b) lst @ r # drop (nat b) lst"
  using assms replace_span [of b b lst r] by simp


lemma take_prefix: "length P = l \<Longrightarrow> l \<le> h \<Longrightarrow> take h (P @ ys) = P @ take (h - l) ys"
  by simp

lemma drop_prefix: "length P = l \<Longrightarrow> l \<le> h \<Longrightarrow> drop h (P @ ys) = drop (h - l) ys"
  by simp

lemma boundary_nat:
  fixes xs :: "'a option list"
  assumes "L < l" "l \<le> h" "h \<le> length xs"
  shows "take h (take L xs @ r # replicate (l - L - 1) None @ drop l xs) =
           take L xs @ r # replicate (l - L - 1) None @ take (h - l) (drop l xs)"
proof -
  let ?P = "take L xs @ r # replicate (l - L - 1) None"
  have "length ?P = l"
    using assms by simp
  then have "take h (?P @ drop l xs) = ?P @ take (h - l) (drop l xs)"
    using assms(2) by (rule take_prefix)
  then show ?thesis
    by (simp only: append.assoc append_Cons)
qed

lemma boundary_nat_drop:
  fixes xs :: "'a option list"
  assumes "L < l" "l \<le> H" "H \<le> length xs"
  shows "drop H (take L xs @ r # replicate (l - L - 1) None @ drop l xs) = drop H xs"
proof -
  let ?P = "take L xs @ r # replicate (l - L - 1) None"
  have "length ?P = l"
    using assms by simp
  then have "drop H (?P @ drop l xs) = drop (H - l) (drop l xs)"
    using assms(2) by (rule drop_prefix)
  moreover have "drop (H - l) (drop l xs) = drop H xs"
    using assms by simp
  ultimately show ?thesis
    by (simp only: append.assoc append_Cons)
qed

text \<open>
  The two writes of a construct with delimiters: the token on the opening region, the
  content as it was, the token on the closing region.
\<close>

lemma replace_boundary:
  assumes "0 \<le> L" "L < l" "l \<le> h" "h \<le> H" "H \<le> int (length lst)"
  shows "replace (replace lst L l r) h H r =
           take (nat L) lst @ r # replicate (nat (l - L - 1)) None @
           take (nat (h - l)) (drop (nat l) lst) @
           r # replicate (nat (H - h - 1)) None @ drop (nat H) lst"
proof -
  let ?mid = "take (nat L) lst @ r # replicate (nat l - nat L - 1) None @ drop (nat l) lst"
  have n1: "nat (l - L - 1) = nat l - nat L - 1" "nat (h - l) = nat h - nat l"
    using assms by linarith+
  have first: "replace lst L l r = ?mid"
    using assms by (simp add: replace_span n1)
  have len: "length (replace lst L l r) = length lst"
    using assms by (simp add: length_replace)
  have "replace (replace lst L l r) h H r =
          take (nat h) ?mid @ r # replicate (nat (H - h - 1)) None @ drop (nat H) ?mid"
    using assms len replace_span [of h H "replace lst L l r" r] by (simp add: first)
  moreover have "take (nat h) ?mid =
      take (nat L) lst @ r # replicate (nat l - nat L - 1) None @
      take (nat h - nat l) (drop (nat l) lst)"
    using assms by (intro boundary_nat) linarith+
  moreover have "drop (nat H) ?mid = drop (nat H) lst"
    using assms by (intro boundary_nat_drop) linarith+
  ultimately show ?thesis
    by (simp add: n1)
qed



section \<open>The link formatter\<close>

text \<open>
  Claim C10.  Called with no link and \<open>from_display\<close> false, \<open>discord_link\<close> returns the
  display text in brackets followed by the text \<open>(None)\<close>, for every display string.  The
  link is taken from the display text only when \<open>from_display\<close> is true, and a link that
  is given is used as it is.
\<close>

theorem discord_link_without_default:
  "discord_link WIKI_BASE d None False = Inr (str_of ''['' @ d @ str_of ''](None)'')
   \<and> discord_link WIKI_BASE d None True =
       (case wiki_link WIKI_BASE d of
          Inl e \<Rightarrow> Inl e
        | Inr url \<Rightarrow> Inr (str_of ''['' @ d @ str_of ''](''  @ url @ str_of '')''))
   \<and> discord_link WIKI_BASE d (Some url') from_display =
       Inr (str_of ''['' @ d @ str_of ''](''  @ url' @ str_of '')'')"
proof -
  have "discord_link WIKI_BASE d None False = Inr (str_of ''['' @ d @ str_of ''](None)'')"
    by (simp add: discord_link_def format_opt_def str_of_def)
  moreover have "discord_link WIKI_BASE d None True =
       (case wiki_link WIKI_BASE d of
          Inl e \<Rightarrow> Inl e
        | Inr url \<Rightarrow> Inr (str_of ''['' @ d @ str_of ''](''  @ url @ str_of '')''))"
    by (simp add: discord_link_def format_opt_def split: sum.splits)
  moreover have "discord_link WIKI_BASE d (Some url') from_display =
       Inr (str_of ''['' @ d @ str_of ''](''  @ url' @ str_of '')'')"
    by (simp add: discord_link_def format_opt_def)
  ultimately show ?thesis
    by simp
qed

section \<open>Exceptions\<close>

text \<open>
  Claim C1.  \<open>parse_wiki_str\<close> does not return a string for every input: a tag with
  contents and no \<open>class\<close> attribute makes the tag loop raise \<open>KeyError\<close>.
\<close>

theorem parse_wiki_str_raises_KeyError:
  "parse_wiki_str WIKI_BASE plain_b_wt plain_b_str = Inl KeyError"
  by code_simp

section \<open>The cells one write changes\<close>

text \<open>
  Claim C5.  A write to an empty span does not keep one cell for each offset: it puts a
  new cell in front of the cell at \<open>begin\<close>, and the list grows by one.  After such a write
  every later span is applied one cell too far to the left: the italic without closing
  apostrophes costs the link behind it its line feed and leaves a closing bracket.
\<close>

theorem replace_empty_span_inserts:
  "replace (list_of (str_of ''ab'')) 1 1 (Some (str_of ''_'')) =
     [Some (str_of ''a''), Some (str_of ''_''), Some (str_of ''b'')]
   \<and> length (replace (list_of (str_of ''ab'')) 1 1 (Some (str_of ''_''))) =
       Suc (length (list_of (str_of ''ab'')))
   \<and> parse_wiki_str WIKI_BASE open_italic_wt open_italic_str =
       Inr (str_of ''_a_[K]('' @ WIKI_BASE @ str_of ''K)]'')"
proof -
  have "replace (list_of (str_of ''ab'')) 1 1 (Some (str_of ''_'')) =
     [Some (str_of ''a''), Some (str_of ''_''), Some (str_of ''b'')]"
    by code_simp
  moreover have "length (replace (list_of (str_of ''ab'')) 1 1 (Some (str_of ''_''))) =
       Suc (length (list_of (str_of ''ab'')))"
    by code_simp
  moreover have "parse_wiki_str WIKI_BASE open_italic_wt open_italic_str =
       Inr (str_of ''_a_[K]('' @ WIKI_BASE @ str_of ''K)]'')"
    by code_simp simp
  ultimately show ?thesis
    by simp
qed

text \<open>
  A write to a span that is not empty and lies in the list does what the claim says: the
  list keeps its length, the first cell of the span holds the replacement, the other
  cells of the span hold \<open>None\<close>, and every cell outside is as before.
\<close>

lemma replace_nonempty_span_cells:
  assumes "0 \<le> b" "b < e" "e \<le> int (length lst)" "i < length lst"
  shows "length (replace lst b e r) = length lst"
    and "replace lst b e r ! i =
           (if i < nat b \<or> nat e \<le> i then lst ! i else if i = nat b then r else None)"
proof -
  show "length (replace lst b e r) = length lst"
    using assms by (simp add: length_replace)
  define B E where "B = nat b" and "E = nat e"
  have BE: "B < E" "E \<le> length lst" and k: "nat (e - b - 1) = E - B - 1"
    using assms by (simp_all add: B_def E_def)
  define M where "M = r # replicate (E - B - 1) None"
  have eq: "replace lst b e r = take B lst @ M @ drop E lst"
    using assms by (simp add: replace_span k [symmetric] B_def E_def M_def)
  have lb: "length (take B lst) = B"
    using BE by simp
  have lm: "length M = E - B"
    using BE by (simp add: M_def)
  have m0: "M ! 0 = r"
    by (simp add: M_def)
  have mj: "M ! j = None" if "0 < j" "j < E - B" for j
    using that by (cases j) (simp_all add: M_def)
  consider "i < B" | "i = B" | "B < i" "i < E" | "E \<le> i"
    by linarith
  then have "replace lst b e r ! i =
           (if i < B \<or> E \<le> i then lst ! i else if i = B then r else None)"
  proof cases
    case 1
    then show ?thesis
      unfolding eq using lb by (simp add: nth_append)
  next
    case 2
    then show ?thesis
      unfolding eq using lb lm m0 BE by (simp add: nth_append)
  next
    case 3
    then have "M ! (i - B) = None"
      by (intro mj) simp_all
    moreover have "i - B < E - B"
      using 3 by linarith
    ultimately show ?thesis
      unfolding eq using 3 lb lm by (simp add: nth_append)
  next
    case 4
    have far: "\<not> i < B" "\<not> i - B < E - B"
      using 4 BE by linarith+
    have "(take B lst @ M @ drop E lst) ! i = drop E lst ! (i - B - (E - B))"
      using far lb lm by (simp add: nth_append)
    moreover have "i - B - (E - B) = i - E"
      using 4 BE by simp
    ultimately show ?thesis
      unfolding eq using 4 BE assms(4) by simp
  qed
  then show "replace lst b e r ! i =
           (if i < nat b \<or> nat e \<le> i then lst ! i else if i = nat b then r else None)"
    by (simp only: B_def E_def)
qed

section \<open>The order of the output\<close>

lemma origins_append: "origins (xs @ ys) = origins xs @ origins ys"
  by (simp add: origins_def)

lemma origins_replicate_None: "origins (replicate n None) = []"
  by (induction n) (simp_all add: origins_def)

lemma sorted_wrt_skip: "sorted_wrt P (xs @ ys @ zs) \<Longrightarrow> sorted_wrt P (xs @ zs)"
  by (simp add: sorted_wrt_append)

lemma origins_skip:
  assumes "b \<le> e" "sorted_wrt (<) (origins labs)"
  shows "sorted_wrt (<) (origins (take b labs) @ origins (drop e labs))"
proof -
  have "take b (take e labs) @ drop b (take e labs) = take e labs"
    by (rule append_take_drop_id)
  moreover have "take b (take e labs) = take b labs"
    using assms(1) by (simp add: min_def)
  ultimately have "take e labs = take b labs @ drop b (take e labs)"
    by simp
  then have "origins (take e labs) = origins (take b labs) @ origins (drop b (take e labs))"
    using origins_append [of "take b labs" "drop b (take e labs)"] by simp
  moreover have "origins labs = origins (take e labs) @ origins (drop e labs)"
    using origins_append [of "take e labs" "drop e labs"] by simp
  ultimately have "origins labs =
      origins (take b labs) @ origins (drop b (take e labs)) @ origins (drop e labs)"
    by simp
  with assms(2) have
    "sorted_wrt (<) (origins (take b labs) @ origins (drop b (take e labs)) @ origins (drop e labs))"
    by simp
  then show ?thesis
    by (rule sorted_wrt_skip)
qed

lemma tracked_replace:
  assumes "tracked string toks list_str" and "repl = None \<or> (\<exists>t \<in> toks. repl = Some t)"
  shows "tracked string toks (replace list_str b e repl)"
proof -
  from assms(1) obtain labs where
    ok: "list_all2 (cell_ok string toks) list_str labs" and srt: "sorted_wrt (<) (origins labs)"
    by (auto simp: tracked_def)
  define b' where "b' = slice_index (length list_str) b"
  define e' where "e' = max b' (slice_index (length list_str) e)"
  define k where "k = nat (e - b - 1)"
  define labs' where "labs' = take b' labs @ replicate (Suc k) None @ drop e' labs"
  have rep: "replace list_str b e repl =
      take b' list_str @ (repl # replicate k None) @ drop e' list_str"
    by (simp add: replace_def b'_def e'_def k_def Let_def)
  have mid: "list_all2 (cell_ok string toks) (repl # replicate k None) (replicate (Suc k) None)"
    using assms(2) by (auto simp: list_all2_conv_all_nth cell_ok_def nth_Cons split: nat.splits)
  have "list_all2 (cell_ok string toks) (replace list_str b e repl) labs'"
    unfolding rep labs'_def using ok mid
    by (intro list_all2_appendI list_all2_takeI list_all2_dropI)
  moreover have "b' \<le> e'"
    by (simp add: e'_def)
  then have "sorted_wrt (<) (origins labs')"
    using origins_skip [OF _ srt, of b' e']
    by (simp add: labs'_def origins_append origins_replicate_None del: replicate_Suc)
  ultimately show ?thesis
    by (auto simp: tracked_def)
qed

lemma tracked_init: "tracked string toks (list_of string)"
proof -
  have "list_all2 (cell_ok string toks) (list_of string) (map Some [0..<length string])"
    by (simp add: list_all2_conv_all_nth cell_ok_def list_of_def)
  moreover have "origins (map Some xs) = xs" for xs
    by (induction xs) (simp_all add: origins_def)
  ultimately show ?thesis
    unfolding tracked_def by (metis sorted_wrt_upt)
qed

lemma tracked_pieces:
  assumes "list_all2 (cell_ok string toks) list_str labs"
  shows "\<exists>pieces.
           join list_str = concat (map (\<lambda>p. case p of Inl i \<Rightarrow> [string ! i] | Inr t \<Rightarrow> t) pieces)
         \<and> [i. Inl i \<leftarrow> pieces] = origins labs
         \<and> (\<forall>i \<in> set [i. Inl i \<leftarrow> pieces]. i < length string)
         \<and> (\<forall>t \<in> set [t. Inr t \<leftarrow> pieces]. t \<in> toks)"
  using assms
proof (induction rule: list_all2_induct)
  case Nil
  show ?case
    by (rule exI [of _ "[]"]) (simp add: join_def origins_def)
next
  case (Cons c cs lab labs)
  then obtain pieces where
    p: "join cs = concat (map (\<lambda>p. case p of Inl i \<Rightarrow> [string ! i] | Inr t \<Rightarrow> t) pieces)"
      "[i. Inl i \<leftarrow> pieces] = origins labs"
      "\<forall>i \<in> set [i. Inl i \<leftarrow> pieces]. i < length string"
      "\<forall>t \<in> set [t. Inr t \<leftarrow> pieces]. t \<in> toks"
    by blast
  show ?case
  proof (cases lab)
    case (Some i)
    with Cons.hyps(1) have "i < length string" "c = Some [string ! i]"
      by (simp_all add: cell_ok_def)
    with p Some show ?thesis
      by (intro exI [of _ "Inl i # pieces"]) (simp add: join_def origins_def)
  next
    case None
    with Cons.hyps(1) consider "c = None" | t where "t \<in> toks" "c = Some t"
      by (auto simp: cell_ok_def)
    then show ?thesis
    proof cases
      case 1
      with p None show ?thesis
        by (intro exI [of _ pieces]) (simp add: join_def origins_def)
    next
      case 2
      with p None show ?thesis
        by (intro exI [of _ "Inr t # pieces"]) (simp add: join_def origins_def)
    qed
  qed
qed

lemma for_each_preserves:
  assumes "\<And>x s s'. x \<in> set xs \<Longrightarrow> P s \<Longrightarrow> body x s = Inr s' \<Longrightarrow> P s'"
    and "P s" "for_each body xs s = Inr s'"
  shows "P s'"
  using assms
proof (induction xs arbitrary: s)
  case Nil
  then show ?case by simp
next
  case (Cons x xs)
  from Cons.prems(3) obtain s1 where s1: "body x s = Inr s1" "for_each body xs s1 = Inr s'"
    by (auto split: sum.splits)
  have s1_ok: "P s1"
    using Cons.prems(1) [of x s s1] Cons.prems(2) s1(1) by simp
  show ?case
  proof (rule Cons.IH [OF _ s1_ok s1(2)])
    fix y t t'
    assume "y \<in> set xs" "P t" "body y t = Inr t'"
    then show "P t'"
      using Cons.prems(1) [of y t t'] by simp
  qed
qed

lemma em_body_tracked:
  assumes "tracked string (replacement_tokens WIKI_BASE wt) s" "em_body em s = Inr s'"
  shows "tracked string (replacement_tokens WIKI_BASE wt) s'"
proof -
  obtain span_l span_h where sp: "em_span em = (span_l, span_h)"
    by (cases "em_span em")
  from assms(2) sp obtain match_l match_h where m: "em_match em = Some (match_l, match_h)"
    by (cases "em_match em") (auto simp: em_body_def)
  define repl where "repl = (if em_is_bold em then Some (str_of ''**'') else Some (str_of ''_''))"
  have r: "repl = None \<or> (\<exists>t \<in> replacement_tokens WIKI_BASE wt. repl = Some t)"
    by (simp add: repl_def replacement_tokens_def)
  have "s' = replace (replace s span_l (span_l + match_l) repl) (span_l + match_h) span_h repl"
    using assms(2) sp m by (simp add: em_body_def repl_def Let_def)
  then show ?thesis
    using assms(1) r by (simp add: tracked_replace)
qed

lemma tag_body_tracked:
  assumes "tracked string (replacement_tokens WIKI_BASE wt) s" "tag_body tag s = Inr s'"
  shows "tracked string (replacement_tokens WIKI_BASE wt) s'"
proof -
  have r: "TAG_MAPPING k = None \<or> (\<exists>t \<in> replacement_tokens WIKI_BASE wt. TAG_MAPPING k = Some t)"
    for k
    by (cases "TAG_MAPPING k") (auto simp: replacement_tokens_def ran_def)
  obtain span_l span_h where sp: "tag_span tag = (span_l, span_h)"
    by (cases "tag_span tag")
  obtain match_l match_h where m: "tag_contents tag = (match_l, match_h)"
    by (cases "tag_contents tag")
  show ?thesis
  proof (cases "match_l \<noteq> - 1")
    case True
    with assms(2) sp m obtain cls where c: "tag_attrs tag (str_of ''class'') = Some cls"
      by (cases "tag_attrs tag (str_of ''class'')") (auto simp: tag_body_def)
    have "s' = replace (replace s span_l (span_l + match_l) (TAG_MAPPING cls))
                 (span_l + match_h) span_h (TAG_MAPPING cls)"
      using assms(2) sp m c True by (simp add: tag_body_def Let_def)
    then show ?thesis
      using assms(1) r by (simp add: tracked_replace)
  next
    case False
    then have "s' = replace s span_l span_h (TAG_MAPPING (tag_name tag))"
      using assms(2) sp m by (simp add: tag_body_def)
    then show ?thesis
      using assms(1) r by (simp add: tracked_replace)
  qed
qed

lemma wikilink_body_tracked:
  assumes "tracked string (replacement_tokens WIKI_BASE wt) s"
    and "wikilink_body WIKI_BASE w s = Inr s'" and "w \<in> set (wikilinks wt)"
  shows "tracked string (replacement_tokens WIKI_BASE wt) s'"
proof -
  let ?T = "replacement_tokens WIKI_BASE wt"
  have p1: "\<exists>t \<in> ?T. Some (str_of ''<placeholder1>'') = Some t"
    and p2: "\<exists>t \<in> ?T. Some (str_of ''<placeholder2>'') = Some t"
    by (simp_all add: replacement_tokens_def)
  obtain span_l span_h where sp: "wl_span w = (span_l, span_h)"
    by (cases "wl_span w")
  show ?thesis
  proof (cases "wl_wikilinks w \<noteq> []")
    case True
    then have "s' = replace s span_l span_h (Some (str_of ''<placeholder1>''))"
      using assms(2) sp by (simp add: wikilink_body_def)
    then show ?thesis
      using assms(1) p1 by (simp add: tracked_replace)
  next
    case False
    with assms(2) sp obtain match_l match_h where m: "wl_match w = Some (match_l, match_h)"
      by (cases "wl_match w") (auto simp: wikilink_body_def)
    show ?thesis
    proof (cases "match_l \<noteq> - 1")
      case True
      then have "s' = replace (replace s span_l (span_l + match_l)
                         (Some (str_of ''<placeholder2>''))) (span_l + match_h) span_h None"
        using assms(2) sp m False by (simp add: wikilink_body_def Let_def)
      then show ?thesis
        using assms(1) p2 by (simp add: tracked_replace)
    next
      case no_text: False
      with assms(2) sp m False obtain link where
        l: "discord_link WIKI_BASE (wl_target w) None True = Inr link"
        and s': "s' = replace s span_l span_h (Some link)"
        by (cases "discord_link WIKI_BASE (wl_target w) None True")
           (auto simp: wikilink_body_def)
      from l assms(3) have "link \<in> ?T"
        by (auto simp: replacement_tokens_def)
      then show ?thesis
        using assms(1) s' by (simp add: tracked_replace)
    qed
  qed
qed

lemma template_body_tracked:
  assumes "tracked string (replacement_tokens WIKI_BASE wt) s" "template_body t s = Inr s'"
  shows "tracked string (replacement_tokens WIKI_BASE wt) s'"
proof -
  have r: "TEMPLATE_MAPPING k = None \<or>
           (\<exists>t \<in> replacement_tokens WIKI_BASE wt. TEMPLATE_MAPPING k = Some t)" for k
    by (cases "TEMPLATE_MAPPING k") (auto simp: replacement_tokens_def ran_def)
  obtain span_l span_h where sp: "tp_span t = (span_l, span_h)"
    by (cases "tp_span t")
  show ?thesis
  proof (cases "tp_templates t = []")
    case True
    then have "s' = replace s span_l span_h (TEMPLATE_MAPPING (tp_name t))"
      using assms(2) sp by (simp add: template_body_def)
    then show ?thesis
      using assms(1) r by (simp add: tracked_replace)
  next
    case False
    then show ?thesis
      using assms sp by (simp add: template_body_def)
  qed
qed

lemma passes_tracked:
  assumes "tracked string (replacement_tokens WIKI_BASE wt) s" "passes WIKI_BASE wt s = Inr s'"
  shows "tracked string (replacement_tokens WIKI_BASE wt) s'"
proof -
  let ?P = "tracked string (replacement_tokens WIKI_BASE wt)"
  from assms(2) obtain s1 s2 s3 where
    1: "for_each em_body (get_bolds_and_italics wt) s = Inr s1" and
    2: "for_each tag_body (get_tags wt) s1 = Inr s2" and
    3: "for_each (wikilink_body WIKI_BASE) (wikilinks wt) s2 = Inr s3" and
    4: "for_each template_body (templates wt) s3 = Inr s'"
    by (auto simp: passes_def split: sum.splits)
  have "?P s1"
    using assms(1) 1 by (rule for_each_preserves [rotated]) (rule em_body_tracked)
  then have "?P s2"
    using 2 by (rule for_each_preserves [rotated]) (rule tag_body_tracked)
  then have "?P s3"
    using 3 by (rule for_each_preserves [rotated]) (rule wikilink_body_tracked)
  then show "?P s'"
    using 4 by (rule for_each_preserves [rotated]) (rule template_body_tracked)
qed

text \<open>
  Claim C6.  When \<open>parse_wiki_str\<close> returns, its output is a concatenation of pieces, each
  either the character at one offset of the input or one of the replacement tokens; the
  offsets of the characters ascend strictly along the output, so every character of the
  input that is kept appears once and in its original order, and a cell that holds \<open>None\<close>
  gives nothing.
\<close>

theorem output_keeps_original_order:
  assumes "parse_wiki_str WIKI_BASE wt string = Inr out"
  shows "\<exists>pieces.
           out = concat (map (\<lambda>p. case p of Inl i \<Rightarrow> [string ! i] | Inr t \<Rightarrow> t) pieces)
         \<and> sorted_wrt (<) [i. Inl i \<leftarrow> pieces]
         \<and> (\<forall>i \<in> set [i. Inl i \<leftarrow> pieces]. i < length string)
         \<and> (\<forall>t \<in> set [t. Inr t \<leftarrow> pieces]. t \<in> replacement_tokens WIKI_BASE wt)"
proof -
  let ?T = "replacement_tokens WIKI_BASE wt"
  from assms obtain list_str where
    run: "passes WIKI_BASE wt (list_of string) = Inr list_str"
    and out: "out = join list_str"
    by (auto simp: parse_wiki_str_def split: sum.splits)
  have "tracked string ?T list_str"
    using tracked_init run by (rule passes_tracked)
  then obtain labs where
    ok: "list_all2 (cell_ok string ?T) list_str labs" and srt: "sorted_wrt (<) (origins labs)"
    by (auto simp: tracked_def)
  from tracked_pieces [OF ok] obtain pieces where
    p: "join list_str =
          concat (map (\<lambda>p. case p of Inl i \<Rightarrow> [string ! i] | Inr t \<Rightarrow> t) pieces)"
      "[i. Inl i \<leftarrow> pieces] = origins labs"
      "\<forall>i \<in> set [i. Inl i \<leftarrow> pieces]. i < length string"
      "\<forall>t \<in> set [t. Inr t \<leftarrow> pieces]. t \<in> ?T"
    by blast
  from p(2) srt have "sorted_wrt (<) [i. Inl i \<leftarrow> pieces]"
    by simp
  with p(1,3,4) out show ?thesis
    by blast
qed

theorem output_keeps_original_order_witness:
  "parse_wiki_str example_base mixed_wt mixed_str = Inr (str_of ''**_text_**'')
   \<and> (\<exists>pieces.
         str_of ''**_text_**'' =
           concat (map (\<lambda>p. case p of Inl i \<Rightarrow> [mixed_str ! i] | Inr t \<Rightarrow> t) pieces)
       \<and> sorted_wrt (<) [i. Inl i \<leftarrow> pieces]
       \<and> (\<forall>i \<in> set [i. Inl i \<leftarrow> pieces]. i < length mixed_str)
       \<and> (\<forall>t \<in> set [t. Inr t \<leftarrow> pieces]. t \<in> replacement_tokens example_base mixed_wt))"
proof -
  have run: "parse_wiki_str example_base mixed_wt mixed_str = Inr (str_of ''**_text_**'')"
    by code_simp
  from run output_keeps_original_order [OF run] show ?thesis
    by (rule conjI)
qed

section \<open>Constructs with delimiters\<close>

text \<open>
  What the two loops write for a construct whose delimiters are not empty.  For an
  emphasis construct with span \<open>[L, H)\<close>, opening delimiter \<open>[L, l)\<close> and content
  \<open>[l, h)\<close>, the emphasis loop leaves the cells before \<open>L\<close>, puts the token (\<open>**\<close> for
  bold, \<open>_\<close> for italic) and then \<open>None\<close> on the opening delimiter, leaves the cells of
  the content as they were, puts the same token and then \<open>None\<close> on the closing delimiter
  \<open>[h, H)\<close>, and leaves the cells from \<open>H\<close> on.  The tag loop does the same for a tag with
  contents that carries a class attribute, with the token that \<open>TAG_MAPPING\<close> gives for
  the class.  So the bold sample becomes \<open>**bold text**\<close>, and the tag around the italic,
  written after the italic, keeps what the italic wrote: \<open>**_text_**\<close>.
\<close>

lemma boundary_rewrite:
  "(0 \<le> L \<and> L < l \<and> l \<le> h \<and> h < H \<and> H \<le> int (length list_str)
      \<and> em_span em = (L, H) \<and> em_match em = Some (l - L, h - L)
    \<longrightarrow> em_body em list_str =
          Inr (take (nat L) list_str @
               Some (if em_is_bold em then str_of ''**'' else str_of ''_'') #
               replicate (nat (l - L - 1)) None @
               take (nat (h - l)) (drop (nat l) list_str) @
               Some (if em_is_bold em then str_of ''**'' else str_of ''_'') #
               replicate (nat (H - h - 1)) None @ drop (nat H) list_str))
   \<and> (0 \<le> M \<and> M < m \<and> m \<le> k \<and> k < K \<and> K \<le> int (length buf)
      \<and> tag_span tag = (M, K) \<and> tag_contents tag = (m - M, k - M)
      \<and> tag_attrs tag (str_of ''class'') = Some cls
    \<longrightarrow> tag_body tag buf =
          Inr (take (nat M) buf @ TAG_MAPPING cls # replicate (nat (m - M - 1)) None @
               take (nat (k - m)) (drop (nat m) buf) @
               TAG_MAPPING cls # replicate (nat (K - k - 1)) None @ drop (nat K) buf))
   \<and> parse_wiki_str WIKI_BASE bold_text_wt bold_text_str = Inr (str_of ''**bold text**'')
   \<and> parse_wiki_str WIKI_BASE mixed_wt mixed_str = Inr (str_of ''**_text_**'')"
proof (intro conjI impI)
  assume "0 \<le> L \<and> L < l \<and> l \<le> h \<and> h < H \<and> H \<le> int (length list_str)
      \<and> em_span em = (L, H) \<and> em_match em = Some (l - L, h - L)"
  then show "em_body em list_str =
          Inr (take (nat L) list_str @
               Some (if em_is_bold em then str_of ''**'' else str_of ''_'') #
               replicate (nat (l - L - 1)) None @
               take (nat (h - l)) (drop (nat l) list_str) @
               Some (if em_is_bold em then str_of ''**'' else str_of ''_'') #
               replicate (nat (H - h - 1)) None @ drop (nat H) list_str)"
    by (simp add: em_body_def Let_def replace_boundary)
next
  assume "0 \<le> M \<and> M < m \<and> m \<le> k \<and> k < K \<and> K \<le> int (length buf)
      \<and> tag_span tag = (M, K) \<and> tag_contents tag = (m - M, k - M)
      \<and> tag_attrs tag (str_of ''class'') = Some cls"
  then show "tag_body tag buf =
          Inr (take (nat M) buf @ TAG_MAPPING cls # replicate (nat (m - M - 1)) None @
               take (nat (k - m)) (drop (nat m) buf) @
               TAG_MAPPING cls # replicate (nat (K - k - 1)) None @ drop (nat K) buf)"
    by (simp add: tag_body_def Let_def replace_boundary)
next
  show "parse_wiki_str WIKI_BASE bold_text_wt bold_text_str = Inr (str_of ''**bold text**'')"
    by code_simp
next
  show "parse_wiki_str WIKI_BASE mixed_wt mixed_str = Inr (str_of ''**_text_**'')"
    by code_simp
qed

lemma boundary_rewrite_samples:
  "em_span bold_text_em = (0, 15) \<and> em_match bold_text_em = Some (3 - 0, 12 - 0)
   \<and> length (list_of bold_text_str) = 15
   \<and> em_body bold_text_em (list_of bold_text_str) =
       Inr ([Some (str_of ''**''), None, None] @ list_of (str_of ''bold text'') @
            [Some (str_of ''**''), None, None])
   \<and> tag_span mixed_tag = (0, 27) \<and> tag_contents mixed_tag = (15 - 0, 23 - 0)
   \<and> tag_attrs mixed_tag (str_of ''class'') = Some (str_of ''inc'')
   \<and> length (list_of mixed_str) = 27
   \<and> tag_body mixed_tag (list_of mixed_str) =
       Inr (Some (str_of ''**'') # replicate 14 None @
            list_of ([39, 39] @ str_of ''text'' @ [39, 39]) @
            [Some (str_of ''**''), None, None, None])"
proof -
  have e: "0 \<le> (0::int) \<and> (0::int) < 3 \<and> (3::int) \<le> 12 \<and> (12::int) < 15
      \<and> 15 \<le> int (length (list_of bold_text_str))
      \<and> em_span bold_text_em = (0, 15) \<and> em_match bold_text_em = Some (3 - 0, 12 - 0)"
    by (simp add: bold_text_em_def bold_text_str_def list_of_def str_of_def)
  have t: "0 \<le> (0::int) \<and> (0::int) < 15 \<and> (15::int) \<le> 23 \<and> (23::int) < 27
      \<and> 27 \<le> int (length (list_of mixed_str))
      \<and> tag_span mixed_tag = (0, 27) \<and> tag_contents mixed_tag = (15 - 0, 23 - 0)
      \<and> tag_attrs mixed_tag (str_of ''class'') = Some (str_of ''inc'')"
    by (simp add: mixed_tag_def mixed_str_def list_of_def str_of_def)
  note inst = boundary_rewrite [where L = 0 and l = 3 and h = 12 and H = 15
      and list_str = "list_of bold_text_str" and em = bold_text_em
      and M = 0 and m = 15 and k = 23 and K = 27
      and buf = "list_of mixed_str" and tag = mixed_tag and cls = "str_of ''inc''"
      and WIKI_BASE = example_base]
  from inst e have "em_body bold_text_em (list_of bold_text_str) =
          Inr (take (nat 0) (list_of bold_text_str) @
               Some (if em_is_bold bold_text_em then str_of ''**'' else str_of ''_'') #
               replicate (nat (3 - 0 - 1)) None @
               take (nat (12 - 3)) (drop (nat 3) (list_of bold_text_str)) @
               Some (if em_is_bold bold_text_em then str_of ''**'' else str_of ''_'') #
               replicate (nat (15 - 12 - 1)) None @ drop (nat 15) (list_of bold_text_str))"
    by blast
  also have "\<dots> = Inr ([Some (str_of ''**''), None, None] @ list_of (str_of ''bold text'') @
            [Some (str_of ''**''), None, None])"
    by code_simp
  finally have em_result: "em_body bold_text_em (list_of bold_text_str) =
       Inr ([Some (str_of ''**''), None, None] @ list_of (str_of ''bold text'') @
            [Some (str_of ''**''), None, None])" .
  from inst t have "tag_body mixed_tag (list_of mixed_str) =
          Inr (take (nat 0) (list_of mixed_str) @
               TAG_MAPPING (str_of ''inc'') # replicate (nat (15 - 0 - 1)) None @
               take (nat (23 - 15)) (drop (nat 15) (list_of mixed_str)) @
               TAG_MAPPING (str_of ''inc'') # replicate (nat (27 - 23 - 1)) None @
               drop (nat 27) (list_of mixed_str))"
    by blast
  also have "\<dots> = Inr (Some (str_of ''**'') # replicate 14 None @
            list_of ([39, 39] @ str_of ''text'' @ [39, 39]) @
            [Some (str_of ''**''), None, None, None])"
    by code_simp
  finally have tag_result: "tag_body mixed_tag (list_of mixed_str) =
       Inr (Some (str_of ''**'') # replicate 14 None @
            list_of ([39, 39] @ str_of ''text'' @ [39, 39]) @
            [Some (str_of ''**''), None, None, None])" .
  have "length (list_of bold_text_str) = 15" "length (list_of mixed_str) = 27"
    by (simp_all add: bold_text_str_def mixed_str_def list_of_def str_of_def)
  with e t em_result tag_result show ?thesis
    by simp
qed

text \<open>
  Claim C2.  The loops do not write the token over exactly the two delimiters of every
  emphasis and every tag with contents.  For the tag with contents and no class
  attribute the tag loop raises \<open>KeyError\<close> and writes nothing.  For the italic without
  closing apostrophes, whose closing delimiter \<open>[3, 3)\<close> is empty, the emphasis loop puts
  the token in a new cell: nine cells become ten, and the line feed of offset 3 is moved
  to the next cell.
\<close>

theorem boundary_rewrite_breaks:
  "tag_span plain_b_tag = (0, 11) \<and> tag_contents plain_b_tag = (3, 7)
   \<and> tag_body plain_b_tag (list_of plain_b_str) = Inl KeyError
   \<and> em_span open_italic_em = (0, 3) \<and> em_match open_italic_em = Some (2, 3)
   \<and> length (list_of open_italic_str) = 9
   \<and> em_body open_italic_em (list_of open_italic_str) =
       Inr ([Some (str_of ''_''), None] @ list_of (str_of ''a'') @ [Some (str_of ''_'')] @
            list_of ([10] @ str_of ''[[K]]''))
   \<and> list_of open_italic_str ! 3 = Some [10]"
proof -
  have "tag_span plain_b_tag = (0, 11) \<and> tag_contents plain_b_tag = (3, 7)"
    by (simp add: plain_b_tag_def)
  moreover have "tag_body plain_b_tag (list_of plain_b_str) = Inl KeyError"
    by (simp add: tag_body_def plain_b_tag_def)
  moreover have "em_span open_italic_em = (0, 3) \<and> em_match open_italic_em = Some (2, 3)"
    by (simp add: open_italic_em_def)
  moreover have "length (list_of open_italic_str) = 9"
    by (simp add: open_italic_str_def list_of_def str_of_def)
  moreover have "em_body open_italic_em (list_of open_italic_str) =
       Inr ([Some (str_of ''_''), None] @ list_of (str_of ''a'') @ [Some (str_of ''_'')] @
            list_of ([10] @ str_of ''[[K]]''))"
    by code_simp
  moreover have "list_of open_italic_str ! 3 = Some [10]"
    by code_simp
  ultimately show ?thesis
    by simp
qed

section \<open>Templates\<close>



section \<open>The identifier of a tag\<close>

text \<open>
  Claim C4, as stated, fails: for the self-closing \<open>br\<close> tag of class \<open>inc\<close> the tag loop
  looks the name \<open>br\<close> up and writes the line feed, not the token of the class.
\<close>

theorem self_closing_tag_ignores_class:
  "class_or_name br_inc_tag = str_of ''inc''
   \<and> tag_body br_inc_tag (list_of br_inc_str) =
       Inr (replace (list_of br_inc_str) 0 17 (TAG_MAPPING (tag_name br_inc_tag)))
   \<and> tag_body br_inc_tag (list_of br_inc_str) \<noteq>
       Inr (replace (list_of br_inc_str) 0 17 (TAG_MAPPING (class_or_name br_inc_tag)))"
proof -
  have "class_or_name br_inc_tag = str_of ''inc''"
    by (simp add: class_or_name_def br_inc_tag_def)
  moreover have "tag_body br_inc_tag (list_of br_inc_str) =
       Inr (replace (list_of br_inc_str) 0 17 (TAG_MAPPING (tag_name br_inc_tag)))"
    by (simp add: tag_body_def br_inc_tag_def)
  moreover have "tag_body br_inc_tag (list_of br_inc_str) \<noteq>
       Inr (replace (list_of br_inc_str) 0 17 (TAG_MAPPING (class_or_name br_inc_tag)))"
    by code_simp
  ultimately show ?thesis
    by simp
qed

text \<open>
  Claim C4, amended.  For a tag with contents that carries a class attribute, the key
  looked up in \<open>TAG_MAPPING\<close> is the value of the class attribute; for a self-closing tag
  the key is the name of the tag, whether or not the tag carries a class attribute.
\<close>

theorem tag_lookup_key:
  "(fst (tag_contents tag) \<noteq> - 1 \<and> tag_attrs tag (str_of ''class'') = Some cls
    \<longrightarrow> tag_body tag list_str =
          Inr (replace
                 (replace list_str (fst (tag_span tag))
                    (fst (tag_span tag) + fst (tag_contents tag)) (TAG_MAPPING cls))
                 (fst (tag_span tag) + snd (tag_contents tag)) (snd (tag_span tag))
                 (TAG_MAPPING cls)))
   \<and> (fst (tag_contents closed) = - 1
    \<longrightarrow> tag_body closed buf =
          Inr (replace buf (fst (tag_span closed)) (snd (tag_span closed))
                 (TAG_MAPPING (tag_name closed))))"
  by (simp add: tag_body_def Let_def split: prod.splits)

theorem tag_lookup_key_witness:
  "fst (tag_contents mixed_tag) \<noteq> - 1
   \<and> tag_attrs mixed_tag (str_of ''class'') = Some (str_of ''inc'')
   \<and> tag_body mixed_tag (list_of mixed_str) =
       Inr (replace (replace (list_of mixed_str) 0 15 (TAG_MAPPING (str_of ''inc''))) 23 27
              (TAG_MAPPING (str_of ''inc'')))
   \<and> fst (tag_contents br_inc_tag) = - 1
   \<and> tag_attrs br_inc_tag (str_of ''class'') = Some (str_of ''inc'')
   \<and> tag_body br_inc_tag (list_of br_inc_str) =
       Inr (replace (list_of br_inc_str) 0 17 (TAG_MAPPING (str_of ''br'')))"
proof -
  have p: "fst (tag_contents mixed_tag) \<noteq> - 1
      \<and> tag_attrs mixed_tag (str_of ''class'') = Some (str_of ''inc'')"
    by (simp add: mixed_tag_def)
  have c: "fst (tag_contents br_inc_tag) = - 1"
    by (simp add: br_inc_tag_def)
  note inst = tag_lookup_key [where tag = mixed_tag and cls = "str_of ''inc''"
      and list_str = "list_of mixed_str" and closed = br_inc_tag
      and buf = "list_of br_inc_str"]
  from inst p have "tag_body mixed_tag (list_of mixed_str) =
          Inr (replace
                 (replace (list_of mixed_str) (fst (tag_span mixed_tag))
                    (fst (tag_span mixed_tag) + fst (tag_contents mixed_tag))
                    (TAG_MAPPING (str_of ''inc'')))
                 (fst (tag_span mixed_tag) + snd (tag_contents mixed_tag))
                 (snd (tag_span mixed_tag)) (TAG_MAPPING (str_of ''inc'')))"
    by blast
  then have paired: "tag_body mixed_tag (list_of mixed_str) =
       Inr (replace (replace (list_of mixed_str) 0 15 (TAG_MAPPING (str_of ''inc''))) 23 27
              (TAG_MAPPING (str_of ''inc'')))"
    by (simp add: mixed_tag_def)
  from inst c have "tag_body br_inc_tag (list_of br_inc_str) =
          Inr (replace (list_of br_inc_str) (fst (tag_span br_inc_tag))
                 (snd (tag_span br_inc_tag)) (TAG_MAPPING (tag_name br_inc_tag)))"
    by blast
  then have single: "tag_body br_inc_tag (list_of br_inc_str) =
       Inr (replace (list_of br_inc_str) 0 17 (TAG_MAPPING (str_of ''br'')))"
    by (simp add: br_inc_tag_def)
  have "tag_attrs br_inc_tag (str_of ''class'') = Some (str_of ''inc'')"
    by (simp add: br_inc_tag_def)
  with p c paired single show ?thesis
    by simp
qed

section \<open>Identifiers without an entry\<close>






section \<open>Constructs written over their whole span\<close>






section \<open>When \<open>parse_wiki_str\<close> returns\<close>

text \<open>
  The three ways to an exception are an emphasis or a wikilink without match object, a
  tag with contents and no class attribute, and a page link whose target holds a
  surrogate.  Without them \<open>parse_wiki_str\<close> returns a string.
\<close>

lemma for_each_returns:
  assumes "\<And>x s. x \<in> set xs \<Longrightarrow> \<exists>s'. body x s = Inr s'"
  shows "\<exists>s'. for_each body xs s = Inr s'"
  using assms
proof (induction xs arbitrary: s)
  case Nil
  then show ?case by simp
next
  case (Cons x xs)
  from Cons.prems [of x s] obtain s1 where s1: "body x s = Inr s1"
    by auto
  have "\<exists>s'. for_each body xs s1 = Inr s'"
    by (rule Cons.IH) (simp add: Cons.prems)
  with s1 show ?case
    by simp
qed

lemma encode_utf8_returns:
  assumes "c < 55296 \<or> (57344 \<le> c \<and> c < 1114112)"
  shows "\<exists>bs. encode_utf8 c = Inr bs"
  using assms by (auto simp: encode_utf8_def)

lemma quote_returns:
  assumes "\<forall>c \<in> set s. c < 55296 \<or> (57344 \<le> c \<and> c < 1114112)"
  shows "\<exists>q. quote s = Inr q"
  using assms
proof (induction s)
  case Nil
  then show ?case by simp
next
  case (Cons c cs)
  then obtain bs q where "encode_utf8 c = Inr bs" "quote cs = Inr q"
    using encode_utf8_returns [of c] by auto
  then show ?case
    by simp
qed

lemma discord_link_returns:
  assumes "\<forall>c \<in> set display. c < 55296 \<or> (57344 \<le> c \<and> c < 1114112)"
  shows "\<exists>l. discord_link WIKI_BASE display link from_display = Inr l"
proof -
  have "\<forall>c \<in> set (map (\<lambda>c. if c = 32 then 95 else c) display).
          c < 55296 \<or> (57344 \<le> c \<and> c < 1114112)"
    using assms by auto
  then obtain q where "urlify display = Inr q"
    unfolding urlify_def using quote_returns by blast
  then show ?thesis
    by (simp add: discord_link_def wiki_link_def)
qed

lemma parse_wiki_str_returns:
  assumes em: "\<forall>em \<in> set (get_bolds_and_italics wt). em_match em \<noteq> None"
    and tag: "\<forall>tag \<in> set (get_tags wt).
                fst (tag_contents tag) \<noteq> - 1 \<longrightarrow> tag_attrs tag (str_of ''class'') \<noteq> None"
    and link: "\<forall>w \<in> set (wikilinks wt). wl_wikilinks w = [] \<longrightarrow>
                (\<exists>m. wl_match w = Some m \<and>
                   (fst m = - 1 \<longrightarrow>
                      (\<forall>c \<in> set (wl_target w). c < 55296 \<or> (57344 \<le> c \<and> c < 1114112))))"
  shows "\<exists>out. parse_wiki_str WIKI_BASE wt string = Inr out"
proof -
  have "\<exists>s'. em_body x s = Inr s'" if "x \<in> set (get_bolds_and_italics wt)" for x s
    using em that by (auto simp: em_body_def Let_def split: prod.splits option.splits)
  then obtain s1 where 1: "for_each em_body (get_bolds_and_italics wt) (list_of string) = Inr s1"
    using for_each_returns [of "get_bolds_and_italics wt" em_body "list_of string"] by blast
  have "\<exists>s'. tag_body x s = Inr s'" if "x \<in> set (get_tags wt)" for x s
    using tag that by (auto simp: tag_body_def Let_def split: prod.splits option.splits)
  then obtain s2 where 2: "for_each tag_body (get_tags wt) s1 = Inr s2"
    using for_each_returns [of "get_tags wt" tag_body s1] by blast
  have "\<exists>s'. wikilink_body WIKI_BASE x s = Inr s'" if x: "x \<in> set (wikilinks wt)" for x s
  proof (cases "wl_wikilinks x = []")
    case False
    then show ?thesis
      by (simp add: wikilink_body_def split: prod.splits)
  next
    case True
    with link x obtain match_l match_h where
      m: "wl_match x = Some (match_l, match_h)"
      and t: "match_l = - 1 \<longrightarrow>
               (\<forall>c \<in> set (wl_target x). c < 55296 \<or> (57344 \<le> c \<and> c < 1114112))"
      by fastforce
    show ?thesis
    proof (cases "match_l = - 1")
      case False
      with True m show ?thesis
        by (simp add: wikilink_body_def Let_def split: prod.splits)
    next
      case no_text: True
      with t obtain l where "discord_link WIKI_BASE (wl_target x) None True = Inr l"
        using discord_link_returns by blast
      with True m no_text show ?thesis
        by (simp add: wikilink_body_def split: prod.splits)
    qed
  qed
  then obtain s3 where 3: "for_each (wikilink_body WIKI_BASE) (wikilinks wt) s2 = Inr s3"
    using for_each_returns [of "wikilinks wt" "wikilink_body WIKI_BASE" s2] by blast
  have "\<exists>s'. template_body x s = Inr s'" for x s
    by (simp add: template_body_def split: prod.splits)
  then obtain s4 where 4: "for_each template_body (templates wt) s3 = Inr s4"
    using for_each_returns [of "templates wt" template_body s3] by blast
  from 1 2 3 4 show ?thesis
    by (simp add: parse_wiki_str_def passes_def)
qed

end
